theory Spec2Isabelle
  imports Main "HOL-Library.Word"
begin

section \<open>Data model of the segment verifier (cmd/tools/segment-verify)\<close>

text \<open>
  Go's \<open>int\<close> is 64 bits wide on the platforms the tool is built for and \<open>int32\<close> is
  32 bits wide; both are two's complement.  They are words here, read with \<open>sint\<close> and
  compared with the signed orders \<open><s\<close> and \<open>\<le>s\<close>.
\<close>

type_synonym go_int = "64 word"
type_synonym go_int32 = "32 word"

text \<open>
  \<open>metabase.NodeAlias\<close> is an \<open>int32\<close> (the compact integer of the spec's glossary);
  \<open>storj.NodeID\<close> is a 32-byte array.
\<close>

type_synonym NodeAlias = "32 word"
type_synonym NodeID = "256 word"

subsection \<open>Errors\<close>

text \<open>
  A Go \<open>error\<close> value is \<open>error option\<close>, \<open>None\<close> being \<open>nil\<close>.  The two error classes
  of the package are \<open>Error\<close> and \<open>ErrNodeOffline\<close>; they are classes of the library
  \<open>github.com/zeebo/errs\<close>, whose \<open>Class.Wrap\<close> returns \<open>nil\<close> for a \<open>nil\<close> argument,
  returns an error that already carries the class unchanged, and otherwise puts the class
  around it; \<open>Class.Has\<close> looks for the class anywhere in the chain.
\<close>

datatype errclass = Error | ErrNodeOffline

datatype error = Cause string | Wrapped errclass error

fun Has :: "errclass \<Rightarrow> error \<Rightarrow> bool" where
  "Has c (Cause msg) = False"
| "Has c (Wrapped c' e) = (c = c' \<or> Has c e)"

fun Wrap :: "errclass \<Rightarrow> error option \<Rightarrow> error option" where
  "Wrap c None = None"
| "Wrap c (Some (Cause msg)) = Some (Wrapped c (Cause msg))"
| "Wrap c (Some (Wrapped c' e)) =
     (if c' = c then Some (Wrapped c' e) else Some (Wrapped c (Wrapped c' e)))"

subsection \<open>Nodes\<close>

record NodeURL =
  ID :: NodeID
  Address :: string

text \<open>The zero value \<open>storj.NodeURL{}\<close>.\<close>

definition NodeURL_zero :: NodeURL where
  "NodeURL_zero = \<lparr>ID = 0, Address = []\<rparr>"

text \<open>
  What the node directory returns (\<open>overlay.NodeDossier\<close>), with the three fields the
  resolver reads: \<open>info.Id\<close>, \<open>info.Address.Address\<close> and \<open>info.Version.Version\<close>.
\<close>

record NodeDossier =
  Id :: NodeID
  Address_Address :: string
  Version_Version :: string

record NodeInfo =
  Version :: string
  NodeURL :: NodeURL

definition NodeInfo_zero :: NodeInfo where
  "NodeInfo_zero = \<lparr>Version = [], NodeURL = NodeURL_zero\<rparr>"

subsection \<open>Segments and batches\<close>

text \<open>
  Modelled from the spec: the declarations of \<open>AliasPiece\<close>, \<open>Status\<close>, \<open>Segment\<close> and
  \<open>Batch\<close> are in files that are not at hand.  Section 3: an alias piece is a node
  alias with a piece number, a segment has an ordered list of alias pieces and a mutable
  status with the remaining retry budget, and a batch is a node alias with the ordered
  list of what is to be checked on that node.  The fields are those process.go reads and
  writes: \<open>Status.Retry\<close> is assigned an \<open>int32\<close> (line 26), and the items of a batch
  are the segments themselves.
\<close>

record AliasPiece =
  Number :: "16 word"
  Alias :: NodeAlias

record Status =
  Retry :: go_int32

record Segment =
  AliasPieces :: "AliasPiece list"
  Status :: Status

text \<open>
  \<open>Verify\<close> receives \<open>[]*Segment\<close> and the batches hold the same pointers, so a segment
  is an address into a store of segments, and every write through a pointer is a write
  to the store.
\<close>

type_synonym addr = nat
type_synonym store = "addr \<Rightarrow> Segment"

record Batch =
  Alias :: NodeAlias
  Items :: "addr list"

subsection \<open>The service\<close>

record Config =
  Check :: go_int
  MaxOffline :: go_int
  Concurrency :: go_int

text \<open>
  Modelled from the spec: the declarations of \<open>Service\<close> and of its configuration are in
  a file that is not at hand.  Sections 3 and 4.4: a check count, a strike maximum and a
  concurrency limit are configured, and the service holds the alias table, the two
  caches of the resolver, the priority set, the online set and the strike counters.
  These are the fields process.go reads and writes; the check count is an \<open>int\<close> (lines
  22 to 24), and so are the strike counters and their maximum.  A Go map from aliases to
  \<open>int\<close> reads as 0 at a missing key, and \<open>++\<close> on a missing key stores 1, so
  \<open>offlineCount\<close> is a total function that is 0 where nothing was stored.  The alias
  table answers \<open>Node(alias)\<close> with a node id and a flag, which is a partial map.
\<close>

record Service =
  config :: Config
  aliasMap :: "NodeAlias \<rightharpoonup> NodeID"
  aliasToNodeURL :: "NodeAlias \<rightharpoonup> NodeURL"
  nodesVersionMap :: "NodeAlias \<rightharpoonup> string"
  priorityNodes :: "NodeAlias set"
  onlineNodes :: "NodeAlias set"
  offlineCount :: "NodeAlias \<Rightarrow> go_int"

text \<open>
  The collaborators the service calls: the catalog's alias table
  (\<open>metabase.LatestNodesAliasMap\<close>, returning a table and an error), the node directory
  (\<open>overlay.Get\<close>) and the piece-check primitive (\<open>verifier.Verify\<close>), which returns the
  number of verified pieces and an error, and writes the outcome into the segments it was
  handed.
\<close>

record Env =
  LatestNodesAliasMap :: "(NodeAlias \<rightharpoonup> NodeID) \<times> error option"
  overlay_Get :: "NodeID \<Rightarrow> error + NodeDossier"
  verifier_Verify ::
    "store \<Rightarrow> NodeAlias \<Rightarrow> NodeURL \<Rightarrow> string \<Rightarrow> addr list \<Rightarrow> bool
       \<Rightarrow> store \<times> go_int \<times> error option"

section \<open>NodeAliasResolver\<close>

text \<open>\<open>aliasMap.Node(alias)\<close>: the node id and whether the alias is in the table.\<close>

definition Node :: "(NodeAlias \<rightharpoonup> NodeID) \<Rightarrow> NodeAlias \<Rightarrow> NodeID \<times> bool" where
  "Node m alias = (case m alias of None \<Rightarrow> (0, False) | Some nodeID \<Rightarrow> (nodeID, True))"

text \<open>
  Lines 141 to 156 of process.go: the directory lookup for a known node id, and the two
  caches it fills.
\<close>

definition convertAliasToNodeURL_lookup ::
  "Env \<Rightarrow> Service \<Rightarrow> NodeAlias \<Rightarrow> NodeID \<Rightarrow> Service \<times> NodeURL \<times> error option" where
  "convertAliasToNodeURL_lookup env s alias nodeID =
     (case overlay_Get env nodeID of
        Inl err \<Rightarrow> (s, NodeURL_zero, Wrap Error (Some err))
      | Inr info \<Rightarrow>
          (let s1 = s\<lparr>nodesVersionMap := (nodesVersionMap s)(alias \<mapsto> Version_Version info)\<rparr>;
               nodeURL = \<lparr>ID = Id info, Address = Address_Address info\<rparr>
           in (s1\<lparr>aliasToNodeURL := (aliasToNodeURL s1)(alias \<mapsto> nodeURL)\<rparr>, nodeURL, None)))"

text \<open>
  \<open>convertAliasToNodeURL\<close>, lines 124 to 157.  The inner \<open>ok\<close> is the flag of the lookup
  in the local table; the test after \<open>LatestNodesAliasMap\<close> reads that same flag (line
  130), as the source does.
\<close>

definition convertAliasToNodeURL ::
  "Env \<Rightarrow> Service \<Rightarrow> NodeAlias \<Rightarrow> Service \<times> NodeURL \<times> error option" where
  "convertAliasToNodeURL env s alias =
     (case aliasToNodeURL s alias of
        Some nodeURL \<Rightarrow> (s, nodeURL, None)
      | None \<Rightarrow>
          (let (nodeID, ok) = Node (aliasMap s) alias in
           if \<not> ok then
             (let (latest, err) = LatestNodesAliasMap env in
              if \<not> ok then (s, NodeURL_zero, Wrap Error err)
              else
                (let s1 = s\<lparr>aliasMap := latest\<rparr>;
                     (nodeID, ok) = Node (aliasMap s1) alias
                 in if \<not> ok then (s1, NodeURL_zero, Wrap Error err)
                    else convertAliasToNodeURL_lookup env s1 alias nodeID))
           else convertAliasToNodeURL_lookup env s alias nodeID))"

text \<open>\<open>GetNodeInfo\<close>, lines 166 to 188.\<close>

definition GetNodeInfo ::
  "Env \<Rightarrow> Service \<Rightarrow> NodeAlias \<Rightarrow> Service \<times> NodeInfo \<times> error option" where
  "GetNodeInfo env s alias =
     (case convertAliasToNodeURL env s alias of
        (s1, nodeURL, err) \<Rightarrow>
          if err \<noteq> None then (s1, NodeInfo_zero, Wrap Error err)
          else
            (case nodesVersionMap s1 alias of
               Some version \<Rightarrow> (s1, \<lparr>Version = version, NodeURL = nodeURL\<rparr>, None)
             | None \<Rightarrow>
                 (case overlay_Get env (ID nodeURL) of
                    Inl err \<Rightarrow> (s1, NodeInfo_zero, Wrap Error (Some err))
                  | Inr info \<Rightarrow>
                      (s1\<lparr>nodesVersionMap :=
                            (nodesVersionMap s1)(alias \<mapsto> Version_Version info)\<rparr>,
                       \<lparr>Version = Version_Version info, NodeURL = nodeURL\<rparr>, None))))"

section \<open>VerifyBatches\<close>

text \<open>
  Lines 95 to 115: what the task of one batch does to the node-health bookkeeping once
  the piece check has returned \<open>verifiedCount\<close> and \<open>err\<close>.  The source runs it under
  the mutex \<open>mu\<close>, so it is one atomic step on the service.  \<open>NodeAliasSet.Remove\<close> takes
  an alias out of a set; logging has no effect on the state.
\<close>

definition VerifyBatches_outcome ::
  "Service \<Rightarrow> NodeAlias \<Rightarrow> go_int \<Rightarrow> error option \<Rightarrow> Service" where
  "VerifyBatches_outcome s alias verifiedCount err =
     (case err of
        Some e \<Rightarrow>
          if Has ErrNodeOffline e then
            (if verifiedCount = 0 then s\<lparr>onlineNodes := onlineNodes s - {alias}\<rparr>
             else
               (let s1 = s\<lparr>offlineCount := (offlineCount s)(alias := offlineCount s alias + 1)\<rparr>
                in if 0 <s MaxOffline (config s1) \<and> MaxOffline (config s1) \<le>s offlineCount s1 alias
                   then s1\<lparr>onlineNodes := onlineNodes s1 - {alias}\<rparr>
                   else s1))
          else s
      | None \<Rightarrow>
          if 0 <s offlineCount s alias
          then s\<lparr>offlineCount := (offlineCount s)(alias := offlineCount s alias - 1)\<rparr>
          else s)"

text \<open>Lines 93 to 116: the task handed to the limiter for one batch.\<close>

definition VerifyBatches_task ::
  "Env \<Rightarrow> Service \<Rightarrow> store \<Rightarrow> Batch \<Rightarrow> NodeInfo \<Rightarrow> bool \<Rightarrow> Service \<times> store" where
  "VerifyBatches_task env s h batch info ignoreThrottle =
     (case verifier_Verify env h (Batch.Alias batch) (NodeURL info) (Version info)
             (Items batch) ignoreThrottle of
        (h1, verifiedCount, err) \<Rightarrow>
          (VerifyBatches_outcome s (Batch.Alias batch) verifiedCount err, h1))"

text \<open>
  The loop of lines 83 to 117, for a context that is not cancelled, so that the limiter
  runs every task.  The tasks are run in the order of the batches, each one before the
  next alias is resolved: this is the schedule of a limiter of concurrency 1, and under
  any other schedule each task is still the same atomic step on the bookkeeping.  When
  an alias does not resolve, the loop returns at once with the wrapped error.
\<close>

fun VerifyBatches_loop ::
  "Env \<Rightarrow> Service \<Rightarrow> store \<Rightarrow> Batch list \<Rightarrow> Service \<times> store \<times> error option" where
  "VerifyBatches_loop env s h [] = (s, h, None)"
| "VerifyBatches_loop env s h (batch # batches) =
     (case GetNodeInfo env s (Batch.Alias batch) of
        (s1, info, err) \<Rightarrow>
          if err \<noteq> None then (s1, h, Wrap Error err)
          else
            (let ignoreThrottle = (Batch.Alias batch \<in> priorityNodes s1) in
             case VerifyBatches_task env s1 h batch info ignoreThrottle of
               (s2, h2) \<Rightarrow> VerifyBatches_loop env s2 h2 batches))"

subsection \<open>The world of one run\<close>

text \<open>
  The service, the store of segments, and the calls made so far: every call of
  \<open>CreateBatches\<close> with the store and the segments it was given, and every call of
  \<open>VerifyBatches\<close> with its batches.
\<close>

datatype Call =
    is_CreateBatchesCall: CreateBatchesCall store "addr list"
  | is_VerifyBatchesCall: VerifyBatchesCall "Batch list"

record World =
  svc :: Service
  mem :: store
  calls :: "Call list"

definition VerifyBatches :: "Env \<Rightarrow> World \<Rightarrow> Batch list \<Rightarrow> World \<times> error option" where
  "VerifyBatches env w batches =
     (let w1 = w\<lparr>calls := calls w @ [VerifyBatchesCall batches]\<rparr> in
      case VerifyBatches_loop env (svc w1) (mem w1) batches of
        (s, h, err) \<Rightarrow> (w1\<lparr>svc := s, mem := h\<rparr>, err))"

section \<open>Verify\<close>

text \<open>
  \<open>CreateBatches\<close> is in a file of the package that is not at hand; \<open>Verify\<close> only uses
  that it returns batches or an error, so it is a parameter of the model: a function of
  the service, the store and the segments that may write to the segments.
\<close>

type_synonym batcher = "Service \<Rightarrow> store \<Rightarrow> addr list \<Rightarrow> store \<times> (error + Batch list)"

definition CreateBatches :: "batcher \<Rightarrow> World \<Rightarrow> addr list \<Rightarrow> World \<times> (error + Batch list)" where
  "CreateBatches cb w segments =
     (let w1 = w\<lparr>calls := calls w @ [CreateBatchesCall (mem w) segments]\<rparr> in
      case cb (svc w1) (mem w1) segments of
        (h, r) \<Rightarrow> (w1\<lparr>mem := h\<rparr>, r))"

text \<open>
  Lines 21 to 27.  \<open>len\<close> yields an \<open>int\<close>, and \<open>int32(retryCount)\<close> keeps the low 32
  bits.
\<close>

fun Verify_setRetry :: "Config \<Rightarrow> store \<Rightarrow> addr list \<Rightarrow> store" where
  "Verify_setRetry cfg h [] = h"
| "Verify_setRetry cfg h (segment # segments) =
     (let retryCount = (if Check cfg = 0 then of_nat (length (AliasPieces (h segment)))
                        else Check cfg)
      in Verify_setRetry cfg
           (h(segment := (h segment)\<lparr>Status := (Status (h segment))\<lparr>Retry := ucast retryCount\<rparr>\<rparr>))
           segments)"

text \<open>
  Lines 55 to 58: the in-place reversal, \<open>i\<close> and \<open>j\<close> being Go \<open>int\<close>s that stay
  between \<open>-1\<close> and the length of the slice.
\<close>

function Verify_reverse :: "int \<Rightarrow> int \<Rightarrow> 'a list \<Rightarrow> 'a list" where
  "Verify_reverse i j xs =
     (if i < j
      then Verify_reverse (i + 1) (j - 1) (xs[nat i := xs ! nat j, nat j := xs ! nat i])
      else xs)"
  by pat_completeness auto
termination
  by (relation "measure (\<lambda>(i, j, xs). nat (j - i))") auto

declare Verify_reverse.simps [simp del]

text \<open>
  Modelled from the spec: \<open>removePriorityPieces\<close> is in a file of the package that is not
  at hand.  Section 4.4, step 4: it strips the pieces that belong to nodes of the
  priority set, keeping the others in their order.
\<close>

definition removePriorityPieces :: "Service \<Rightarrow> Segment \<Rightarrow> Segment" where
  "removePriorityPieces s segment =
     segment\<lparr>AliasPieces :=
       filter (\<lambda>piece. AliasPiece.Alias piece \<notin> priorityNodes s) (AliasPieces segment)\<rparr>"

text \<open>Lines 54 to 61.\<close>

fun Verify_prepareRetry :: "Service \<Rightarrow> store \<Rightarrow> addr list \<Rightarrow> store" where
  "Verify_prepareRetry s h [] = h"
| "Verify_prepareRetry s h (segment # retrySegments) =
     (let xs = AliasPieces (h segment);
          h1 = h(segment := (h segment)\<lparr>AliasPieces := Verify_reverse 0 (int (length xs) - 1) xs\<rparr>)
      in Verify_prepareRetry s (h1(segment := removePriorityPieces s (h1 segment))) retrySegments)"

text \<open>Lines 39 to 73: what \<open>Verify\<close> does after a first pass that returned no error.\<close>

definition Verify_retry :: "batcher \<Rightarrow> Env \<Rightarrow> World \<Rightarrow> addr list \<Rightarrow> World \<times> error option" where
  "Verify_retry cb env w segments =
     (let retrySegments = filter (\<lambda>segment. 0 <s Retry (Status (mem w segment))) segments in
      if length retrySegments = 0 then (w, None)
      else if Check (config (svc w)) \<le>s 0 then (w, None)
      else
        (let w1 = w\<lparr>mem := Verify_prepareRetry (svc w) (mem w) retrySegments\<rparr> in
         case CreateBatches cb w1 retrySegments of
           (w2, Inl err) \<Rightarrow> (w2, Wrap Error (Some err))
         | (w2, Inr retryBatches) \<Rightarrow>
             (case VerifyBatches env w2 retryBatches of
                (w3, err) \<Rightarrow> if err \<noteq> None then (w3, Wrap Error err) else (w3, None))))"

text \<open>Lines 21 to 37: the retry budget and the first pass.\<close>

definition Verify_firstPass ::
  "batcher \<Rightarrow> Env \<Rightarrow> World \<Rightarrow> addr list \<Rightarrow> World \<times> error option" where
  "Verify_firstPass cb env w segments =
     (let w1 = w\<lparr>mem := Verify_setRetry (config (svc w)) (mem w) segments\<rparr> in
      case CreateBatches cb w1 segments of
        (w2, Inl err) \<Rightarrow> (w2, Wrap Error (Some err))
      | (w2, Inr batches) \<Rightarrow>
          (case VerifyBatches env w2 batches of
             (w3, err) \<Rightarrow> if err \<noteq> None then (w3, Wrap Error err) else (w3, None)))"

text \<open>
  \<open>Verify\<close>, lines 18 to 74: it returns the error of the first pass if there is one, and
  goes on to the retry otherwise.
\<close>

definition Verify :: "batcher \<Rightarrow> Env \<Rightarrow> World \<Rightarrow> addr list \<Rightarrow> World \<times> error option" where
  "Verify cb env w segments =
     (case Verify_firstPass cb env w segments of
        (w3, Some err) \<Rightarrow> (w3, Some err)
      | (w3, None) \<Rightarrow> Verify_retry cb env w3 segments)"

section \<open>The ranged loop over the catalog (satellite/metabase/rangedloop)\<close>

text \<open>
  A \<open>uuid.UUID\<close> is 16 bytes; a \<open>time.Time\<close> is an instant, counted here in
  nanoseconds.

  Modelled from the spec: the declaration of \<open>UUIDRange\<close> is in a file that is not at
  hand.  Section 3: an interval from \<open>Start\<close> to \<open>End\<close>, a bound being \<open>nil\<close> for an open
  side; \<open>Iterate\<close> reads both bounds through pointers (lines 66 to 71).  The provider is
  declared in providerdb.go; its database handle is the function \<open>db\<close> of \<open>Iterate\<close>
  below.
\<close>

type_synonym UUID = "128 word"
type_synonym Time = int

record UUIDRange =
  Start :: "UUID option"
  End :: "UUID option"

record MetabaseSegmentProvider =
  uuidRange :: UUIDRange
  asOfSystemTime :: Time
  batchSize :: go_int

subsection \<open>CreateRanges\<close>

text \<open>
  Modelled from the spec: \<open>CreateUUIDRanges\<close> is in a file of the package that is not at
  hand.  Section 4.1: it fails only on an invalid number of ranges, which for its
  \<open>uint32\<close> argument is 0, and otherwise divides the identifier space into that many
  contiguous intervals of about the same size, the first open below and the last open
  above.  \<open>UUIDRange_bounds n\<close> are the \<open>n\<close> intervals.
\<close>

definition UUIDRange_bound :: "nat \<Rightarrow> nat \<Rightarrow> UUID option" where
  "UUIDRange_bound n i = (if i = 0 \<or> n \<le> i then None else Some (of_nat (i * (2 ^ 128 div n))))"

definition UUIDRange_bounds :: "nat \<Rightarrow> UUIDRange list" where
  "UUIDRange_bounds n =
     map (\<lambda>i. \<lparr>Start = UUIDRange_bound n i, End = UUIDRange_bound n (Suc i)\<rparr>) [0..<n]"

definition CreateUUIDRanges :: "32 word \<Rightarrow> error + UUIDRange list" where
  "CreateUUIDRanges nRanges =
     (if nRanges = 0 then Inl (Cause ''invalid number of ranges'')
      else Inr (UUIDRange_bounds (unat nRanges)))"

text \<open>
  \<open>CreateRanges\<close>, lines 40 to 59, over any function in the place of
  \<open>CreateUUIDRanges\<close>; \<open>now\<close> is what \<open>time.Now()\<close> returns.  \<open>uint32(nRanges)\<close> keeps the
  low 32 bits of the \<open>int\<close>.
\<close>

definition CreateRanges ::
  "(32 word \<Rightarrow> error + UUIDRange list) \<Rightarrow> Time \<Rightarrow> go_int \<Rightarrow> go_int
     \<Rightarrow> error + MetabaseSegmentProvider list" where
  "CreateRanges createUUIDRanges now nRanges batchSize' =
     (case createUUIDRanges (ucast nRanges) of
        Inl err \<Rightarrow> Inl err
      | Inr uuidRanges \<Rightarrow>
          Inr (map (\<lambda>r. \<lparr>uuidRange = r, asOfSystemTime = now, batchSize = batchSize'\<rparr>)
                 uuidRanges))"

subsection \<open>Iterate\<close>

text \<open>
  The function handed to \<open>IterateLoopSegments\<close>, lines 78 to 106, over the rows the
  iterator yields.  The callback \<open>fn\<close> may depend on what it was given before, so it
  takes the batches delivered so far and the new batch; \<open>ctx_Err k\<close> is what \<open>ctx.Err()\<close>
  returns in the iteration of row \<open>k\<close>.  The result is the list of batches \<open>fn\<close> was
  called with, in order, and the error returned.
\<close>

fun Iterate_loop ::
  "go_int \<Rightarrow> (nat \<Rightarrow> error option) \<Rightarrow> ('a list list \<Rightarrow> 'a list \<Rightarrow> error option)
     \<Rightarrow> nat \<Rightarrow> 'a list \<Rightarrow> 'a list \<Rightarrow> 'a list list \<Rightarrow> 'a list list \<times> error option" where
  "Iterate_loop batchSize' ctx_Err fn k [] segments delivered =
     (if length segments > 0 then (delivered @ [segments], fn delivered segments)
      else (delivered, None))"
| "Iterate_loop batchSize' ctx_Err fn k (segment # rows) segments delivered =
     (case ctx_Err k of
        Some err \<Rightarrow> (delivered, Some err)
      | None \<Rightarrow>
          (let segments1 = segments @ [segment] in
           if batchSize' \<le>s of_nat (length segments1) then
             (case fn delivered segments1 of
                Some err \<Rightarrow> (delivered @ [segments1], Some err)
              | None \<Rightarrow> Iterate_loop batchSize' ctx_Err fn (Suc k) rows [] (delivered @ [segments1]))
           else Iterate_loop batchSize' ctx_Err fn (Suc k) rows segments1 delivered))"

text \<open>
  The options \<open>Iterate\<close> passes on: an open bound becomes the zero UUID (lines 63 to 71).
\<close>

record IterateLoopSegments =
  BatchSize :: go_int
  AsOfSystemTime :: Time
  StartStreamID :: UUID
  EndStreamID :: UUID

definition Iterate_options :: "MetabaseSegmentProvider \<Rightarrow> IterateLoopSegments" where
  "Iterate_options provider =
     (let startStreamID = (case Start (uuidRange provider) of None \<Rightarrow> 0 | Some u \<Rightarrow> u);
          endStreamID = (case End (uuidRange provider) of None \<Rightarrow> 0 | Some u \<Rightarrow> u)
      in \<lparr>BatchSize = batchSize provider,
          AsOfSystemTime = asOfSystemTime provider,
          StartStreamID = startStreamID,
          EndStreamID = endStreamID\<rparr>)"

text \<open>
  Modelled from the spec: \<open>metabase.DB.IterateLoopSegments\<close> is in a package that is not
  at hand.  Section 6: for a key range, a batch size and a timestamp it streams the rows
  of the range in key order; here it calls the function it is given once, on an iterator
  over the finite sequence of rows \<open>db\<close> holds for the options, and returns what that
  function returns.
\<close>

definition DB_IterateLoopSegments ::
  "(IterateLoopSegments \<Rightarrow> 'a list) \<Rightarrow> IterateLoopSegments \<Rightarrow> ('a list \<Rightarrow> 'r) \<Rightarrow> 'r" where
  "DB_IterateLoopSegments db opts f = f (db opts)"

text \<open>
  \<open>Iterate\<close>, lines 62 to 107.  \<open>make\<close> with a negative capacity panics (line 79), which
  is \<open>None\<close>.
\<close>

definition Iterate ::
  "(IterateLoopSegments \<Rightarrow> 'a list) \<Rightarrow> MetabaseSegmentProvider \<Rightarrow> (nat \<Rightarrow> error option)
     \<Rightarrow> ('a list list \<Rightarrow> 'a list \<Rightarrow> error option) \<Rightarrow> ('a list list \<times> error option) option" where
  "Iterate db provider ctx_Err fn =
     DB_IterateLoopSegments db (Iterate_options provider)
       (\<lambda>rows. if batchSize provider <s 0 then None
               else Some (Iterate_loop (batchSize provider) ctx_Err fn 0 rows [] []))"

text \<open>
  What the spec of section 4.2 says \<open>Iterate\<close> hands over, written down from its words:
  the rows cut into batches of \<open>n\<close>, and a last shorter batch if rows remain.
\<close>

function batches_of :: "nat \<Rightarrow> 'a list \<Rightarrow> 'a list list" where
  "batches_of n rows =
     (if n = 0 \<or> rows = [] then [] else take n rows # batches_of n (drop n rows))"
  by pat_completeness auto
termination
  by (relation "measure (\<lambda>(n, rows). length rows)") auto

declare batches_of.simps [simp del]

section \<open>Example runs\<close>


definition dossier :: "NodeID \<Rightarrow> NodeDossier" where
  "dossier nodeID = \<lparr>Id = nodeID, Address_Address = ''10.0.0.1:28967'', Version_Version = ''v1.67.1''\<rparr>"

text \<open>
  A directory that knows the nodes 42 and 43, a catalog whose latest alias table is
  \<open>latest\<close>, and a piece check that always answers \<open>answer\<close> and leaves the segments
  alone.
\<close>

definition example_env ::
  "(NodeAlias \<rightharpoonup> NodeID) \<times> error option \<Rightarrow> go_int \<times> error option \<Rightarrow> Env" where
  "example_env latest answer =
     \<lparr>LatestNodesAliasMap = latest,
      overlay_Get = (\<lambda>nodeID. if nodeID = 42 \<or> nodeID = 43 then Inr (dossier nodeID)
                              else Inl (Cause ''node not found'')),
      verifier_Verify = (\<lambda>h alias url version items ignoreThrottle. (h, answer))\<rparr>"

text \<open>
  A service with the local alias table \<open>table\<close>, empty caches, the nodes 7 and 8 online,
  and \<open>strikes\<close> offline strikes recorded for node 7.
\<close>

definition example_service :: "(NodeAlias \<rightharpoonup> NodeID) \<Rightarrow> go_int \<Rightarrow> go_int \<Rightarrow> Service" where
  "example_service table maxOffline strikes =
     \<lparr>config = \<lparr>Check = 2, MaxOffline = maxOffline, Concurrency = 1\<rparr>,
      aliasMap = table, aliasToNodeURL = Map.empty, nodesVersionMap = Map.empty,
      priorityNodes = {}, onlineNodes = {7, 8},
      offlineCount = (\<lambda>alias. if alias = 7 then strikes else 0)\<rparr>"




text \<open>A catalog that is unavailable and a piece check that fails on every batch.\<close>

definition failing_env :: Env where
  "failing_env = example_env (Map.empty, Some (Cause ''catalog unavailable''))
                   (0, Some (Cause ''piece check failed''))"

text \<open>
  Modelled from the spec: \<open>CreateBatches\<close> is in a file of the package that is not at
  hand.  Section 4.3: every piece of every segment is appended to the batch of its alias,
  which is created when the alias is first seen; the batches are in the order in which
  their aliases first occur, and nothing is deduplicated.  It is the batcher of the
  example runs.
\<close>

fun enqueue :: "NodeAlias \<Rightarrow> addr \<Rightarrow> Batch list \<Rightarrow> Batch list" where
  "enqueue alias segment [] = [\<lparr>Alias = alias, Items = [segment]\<rparr>]"
| "enqueue alias segment (batch # batches) =
     (if Batch.Alias batch = alias then batch\<lparr>Items := Items batch @ [segment]\<rparr> # batches
      else batch # enqueue alias segment batches)"

definition CreateBatches_spec :: batcher where
  "CreateBatches_spec s h segments =
     (h, Inr (fold (\<lambda>segment batches.
                      fold (\<lambda>piece. enqueue (AliasPiece.Alias piece) segment)
                        (AliasPieces (h segment)) batches)
                segments []))"

text \<open>
  A world in which every address holds a segment with pieces on the nodes 7, 8 and 9,
  node 8 being a priority node.
\<close>

definition retry_segment :: Segment where
  "retry_segment =
     \<lparr>AliasPieces = [\<lparr>Number = 0, Alias = 7\<rparr>, \<lparr>Number = 1, Alias = 8\<rparr>, \<lparr>Number = 2, Alias = 9\<rparr>],
      Status = \<lparr>Retry = 0\<rparr>\<rparr>"

definition retry_world :: "go_int \<Rightarrow> World" where
  "retry_world check =
     \<lparr>svc = \<lparr>config = \<lparr>Check = check, MaxOffline = 2, Concurrency = 1\<rparr>,
             aliasMap = [7 \<mapsto> 42, 8 \<mapsto> 43, 9 \<mapsto> 42], aliasToNodeURL = Map.empty,
             nodesVersionMap = Map.empty, priorityNodes = {8}, onlineNodes = {7, 8, 9},
             offlineCount = (\<lambda>alias. 0)\<rparr>,
      mem = (\<lambda>a. retry_segment), calls = []\<rparr>"

text \<open>A provider for the range up to 1024, and a catalog with five rows in that range.\<close>

definition example_provider :: "go_int \<Rightarrow> MetabaseSegmentProvider" where
  "example_provider n =
     \<lparr>uuidRange = \<lparr>Start = None, End = Some 1024\<rparr>, asOfSystemTime = 1667000000, batchSize = n\<rparr>"

definition example_rows :: "IterateLoopSegments \<Rightarrow> nat list" where
  "example_rows opts = (if EndStreamID opts = 1024 then [10, 11, 12, 13, 14] else [])"




section \<open>Properties\<close>

subsection \<open>Errors and signed integers\<close>

lemma Wrap_eq_None [simp]: "Wrap c err = None \<longleftrightarrow> err = None"
  by (cases "(c, err)" rule: Wrap.cases) auto




subsection \<open>The resolver\<close>

text \<open>
  A miss in both the cache and the local table: whatever the catalog returns, the
  function returns the zero URL and the wrapped catalog error, and stores nothing.
\<close>

lemma convertAliasToNodeURL_miss:
  "aliasToNodeURL s alias = None \<Longrightarrow> aliasMap s alias = None \<Longrightarrow>
   convertAliasToNodeURL env s alias
     = (s, NodeURL_zero, Wrap Error (snd (LatestNodesAliasMap env)))"
  by (simp add: convertAliasToNodeURL_def Node_def split: prod.splits)

text \<open>
  C1.  Alias 7 is in neither the cache nor the local table, the catalog answers without
  an error with a table that maps 7 to node 42, and the directory knows node 42.  The
  resolver nevertheless returns the zero-valued URL with a nil error, and leaves the
  local table and the caches as they were: the refreshed table is never consulted.
\<close>

theorem convertAliasToNodeURL_refresh_nil_error:
  "aliasToNodeURL (example_service Map.empty 2 0) 7 = None
   \<and> aliasMap (example_service Map.empty 2 0) 7 = None
   \<and> Node (fst (LatestNodesAliasMap (example_env ([7 \<mapsto> 42], None) (1, None)))) 7 = (42, True)
   \<and> overlay_Get (example_env ([7 \<mapsto> 42], None) (1, None)) 42 = Inr (dossier 42)
   \<and> convertAliasToNodeURL (example_env ([7 \<mapsto> 42], None) (1, None))
        (example_service Map.empty 2 0) 7
       = (example_service Map.empty 2 0, NodeURL_zero, None)"
  by (simp add: convertAliasToNodeURL_def Node_def example_env_def example_service_def)

subsection \<open>The health bookkeeping of one batch\<close>












subsection \<open>The error of VerifyBatches\<close>








subsection \<open>Conversions between the integer types\<close>

lemma ucast_of_nat_32: "(ucast (of_nat n :: 64 word) :: 32 word) = of_nat n"
  by (simp add: unsigned_of_nat word_of_nat_eq_iff)

lemma sint_of_nat_32: "n < 2 ^ 31 \<Longrightarrow> sint (of_nat n :: 32 word) = int n"
proof -
  assume "n < 2 ^ 31"
  then have "int n < 2 ^ 31" by (metis of_nat_less_iff of_nat_numeral of_nat_power)
  then have "signed_take_bit 31 (int n) = int n"
    by (intro signed_take_bit_int_eq_self) auto
  then show ?thesis by (simp add: signed_of_nat)
qed

lemma sint_ucast_64_32:
  fixes c :: "64 word"
  assumes "- (2 ^ 31) \<le> sint c" "sint c < 2 ^ 31"
  shows "sint (ucast c :: 32 word) = sint c"
proof -
  have "sint (ucast c :: 32 word) = signed_take_bit 31 (uint c)"
    by (simp add: signed_ucast_eq)
  also have "\<dots> = signed_take_bit 31 (signed_take_bit 63 (uint c))"
    by (simp add: signed_take_bit_signed_take_bit)
  also have "signed_take_bit 63 (uint c) = sint c"
    by (simp add: sint_uint)
  also have "signed_take_bit 31 (sint c) = sint c"
    using assms by (intro signed_take_bit_int_eq_self) auto
  finally show ?thesis .
qed

subsection \<open>The loops of Verify\<close>

text \<open>The in-place reversal of lines 55 to 58 reverses the slice.\<close>

lemma Verify_reverse_length [simp]: "length (Verify_reverse i j xs) = length xs"
proof (induction i j xs rule: Verify_reverse.induct)
  case (1 i j xs)
  show ?case
  proof (cases "i < j")
    case True
    then show ?thesis using "1.IH" by (subst Verify_reverse.simps) simp
  next
    case False
    then show ?thesis by (subst Verify_reverse.simps) simp
  qed
qed



lemma Verify_setRetry_other:
  "a \<notin> set segments \<Longrightarrow> Verify_setRetry cfg h segments a = h a"
  by (induction segments arbitrary: h) (auto simp: Let_def)

lemma Verify_setRetry_AliasPieces:
  "AliasPieces (Verify_setRetry cfg h segments a) = AliasPieces (h a)"
  by (induction segments arbitrary: h) (auto simp: Let_def)

lemma Verify_setRetry_Retry:
  "a \<in> set segments \<Longrightarrow>
   Retry (Status (Verify_setRetry cfg h segments a))
     = ucast (if Check cfg = 0 then of_nat (length (AliasPieces (h a))) else Check cfg)"
proof (induction segments arbitrary: h)
  case Nil
  then show ?case by simp
next
  case (Cons segment segments)
  let ?h1 = "h(segment := (h segment)\<lparr>Status := (Status (h segment))\<lparr>Retry :=
     ucast (if Check cfg = 0 then of_nat (length (AliasPieces (h segment))) else Check cfg)\<rparr>\<rparr>)"
  have unf: "Verify_setRetry cfg h (segment # segments) = Verify_setRetry cfg ?h1 segments"
    by (simp add: Let_def)
  have ap: "AliasPieces (?h1 a) = AliasPieces (h a)" by simp
  show ?case
  proof (cases "a \<in> set segments")
    case True
    then have "Retry (Status (Verify_setRetry cfg ?h1 segments a))
       = ucast (if Check cfg = 0 then of_nat (length (AliasPieces (?h1 a))) else Check cfg)"
      by (rule Cons.IH)
    then show ?thesis by (simp only: unf ap)
  next
    case False
    then have "a = segment" using Cons.prems by simp
    then show ?thesis unfolding unf using False by (simp add: Verify_setRetry_other)
  qed
qed



lemma CreateBatches_calls:
  "calls (fst (CreateBatches cb w segments)) = calls w @ [CreateBatchesCall (mem w) segments]
   \<and> svc (fst (CreateBatches cb w segments)) = svc w
   \<and> snd (CreateBatches cb w segments) = snd (cb (svc w) (mem w) segments)"
  by (simp add: CreateBatches_def Let_def split: prod.splits)

lemma VerifyBatches_calls:
  "calls (fst (VerifyBatches env w batches)) = calls w @ [VerifyBatchesCall batches]"
  by (simp add: VerifyBatches_def Let_def split: prod.splits)

lemma Verify_retry_calls:
  "calls (fst (Verify_retry cb env w segments)) =
     (let retrySegments = filter (\<lambda>segment. 0 <s Retry (Status (mem w segment))) segments;
          h = Verify_prepareRetry (svc w) (mem w) retrySegments
      in calls w @
           (if retrySegments \<noteq> [] \<and> 0 <s Check (config (svc w))
            then CreateBatchesCall h retrySegments #
                   (case snd (cb (svc w) h retrySegments) of
                      Inl err \<Rightarrow> []
                    | Inr retryBatches \<Rightarrow> [VerifyBatchesCall retryBatches])
            else []))"
proof -
  let ?rs = "filter (\<lambda>segment. 0 <s Retry (Status (mem w segment))) segments"
  let ?h = "Verify_prepareRetry (svc w) (mem w) ?rs"
  let ?w1 = "w\<lparr>mem := ?h\<rparr>"
  have le: "Check (config (svc w)) \<le>s 0 \<longleftrightarrow> \<not> 0 <s Check (config (svc w))"
    by (simp add: word_sless_alt word_sle_eq not_less)
  show ?thesis
  proof (cases "?rs \<noteq> [] \<and> 0 <s Check (config (svc w))")
    case False
    then show ?thesis by (auto simp: Verify_retry_def Let_def le)
  next
    case True
    obtain w2 r where c: "CreateBatches cb ?w1 ?rs = (w2, r)" by (cases "CreateBatches cb ?w1 ?rs")
    have w2: "calls w2 = calls w @ [CreateBatchesCall ?h ?rs]"
      using CreateBatches_calls [of cb ?w1 ?rs] c by simp
    have cbr: "snd (cb (svc w) ?h ?rs) = r"
      using CreateBatches_calls [of cb ?w1 ?rs] c by simp
    show ?thesis
    proof (cases r)
      case (Inl err)
      then show ?thesis using True c w2 cbr by (simp add: Verify_retry_def Let_def le)
    next
      case (Inr retryBatches)
      obtain w3 err where v: "VerifyBatches env w2 retryBatches = (w3, err)"
        by (cases "VerifyBatches env w2 retryBatches")
      have "calls w3 = calls w2 @ [VerifyBatchesCall retryBatches]"
        using VerifyBatches_calls [of env w2 retryBatches] v by simp
      then show ?thesis using True c w2 cbr Inr v
        by (simp add: Verify_retry_def Let_def le)
    qed
  qed
qed

lemma Verify_firstPass_calls:
  "calls (fst (Verify_firstPass cb env w segments)) =
     (let h1 = Verify_setRetry (config (svc w)) (mem w) segments in
      calls w @ CreateBatchesCall h1 segments #
        (case snd (cb (svc w) h1 segments) of
           Inl err \<Rightarrow> []
         | Inr batches \<Rightarrow> [VerifyBatchesCall batches]))"
proof -
  let ?h1 = "Verify_setRetry (config (svc w)) (mem w) segments"
  let ?w1 = "w\<lparr>mem := ?h1\<rparr>"
  obtain w2 r where c: "CreateBatches cb ?w1 segments = (w2, r)"
    by (cases "CreateBatches cb ?w1 segments")
  have w2: "calls w2 = calls w @ [CreateBatchesCall ?h1 segments]"
    using CreateBatches_calls [of cb ?w1 segments] c by simp
  have cbr: "snd (cb (svc w) ?h1 segments) = r"
    using CreateBatches_calls [of cb ?w1 segments] c by simp
  show ?thesis
  proof (cases r)
    case (Inl err)
    then show ?thesis using c w2 cbr by (simp add: Verify_firstPass_def Let_def)
  next
    case (Inr batches)
    obtain w3 err where v: "VerifyBatches env w2 batches = (w3, err)"
      by (cases "VerifyBatches env w2 batches")
    have "calls w3 = calls w2 @ [VerifyBatchesCall batches]"
      using VerifyBatches_calls [of env w2 batches] v by simp
    then show ?thesis using c w2 cbr Inr v by (simp add: Verify_firstPass_def Let_def)
  qed
qed

lemma Verify_firstPass_error:
  "snd (Verify_firstPass cb env w segments) = None \<Longrightarrow>
   \<exists>batches. snd (cb (svc w) (Verify_setRetry (config (svc w)) (mem w) segments) segments) = Inr batches"
  using CreateBatches_calls [of cb "w\<lparr>mem := Verify_setRetry (config (svc w)) (mem w) segments\<rparr>" segments]
  by (auto simp: Verify_firstPass_def Let_def split: prod.splits sum.splits if_splits)

lemma Verify_calls:
  "calls (fst (Verify cb env w segments)) =
     (if snd (Verify_firstPass cb env w segments) = None
      then calls (fst (Verify_retry cb env (fst (Verify_firstPass cb env w segments)) segments))
      else calls (fst (Verify_firstPass cb env w segments)))"
  by (cases "Verify_firstPass cb env w segments")
     (auto simp: Verify_def split: option.splits)


lemma Verify_calls_ok:
  "snd (Verify_firstPass cb env w segments) = None \<Longrightarrow>
   calls (fst (Verify cb env w segments))
     = calls (fst (Verify_retry cb env (fst (Verify_firstPass cb env w segments)) segments))"
  by (simp add: Verify_calls)

lemma Verify_calls_err:
  "snd (Verify_firstPass cb env w segments) \<noteq> None \<Longrightarrow>
   calls (fst (Verify cb env w segments)) = calls (fst (Verify_firstPass cb env w segments))"
  by (auto simp: Verify_calls)



text \<open>
  C5, as the source has it.  The first thing \<open>Verify\<close> does is to hand \<open>CreateBatches\<close>
  the store in which every segment of the list has its \<open>Status.Retry\<close> set: to the low
  32 bits of the configured check count if that is not 0, which is the check count
  itself whenever it fits an \<open>int32\<close>; and to the number of pieces of the segment
  otherwise, as long as that is below \<open>2 ^ 31\<close>.
\<close>

theorem Verify_retry_budget:
  "(\<exists>rest. calls (fst (Verify cb env w segments))
       = calls w @ CreateBatchesCall (Verify_setRetry (config (svc w)) (mem w) segments) segments # rest)
   \<and> (\<forall>segment \<in> set segments.
        Retry (Status (Verify_setRetry (config (svc w)) (mem w) segments segment))
          = (if Check (config (svc w)) = 0 then of_nat (length (AliasPieces (mem w segment)))
             else ucast (Check (config (svc w))))
        \<and> (Check (config (svc w)) \<noteq> 0 \<and> - (2 ^ 31) \<le> sint (Check (config (svc w)))
             \<and> sint (Check (config (svc w))) < 2 ^ 31 \<longrightarrow>
            sint (Retry (Status (Verify_setRetry (config (svc w)) (mem w) segments segment)))
              = sint (Check (config (svc w))))
        \<and> (Check (config (svc w)) = 0 \<and> length (AliasPieces (mem w segment)) < 2 ^ 31 \<longrightarrow>
            sint (Retry (Status (Verify_setRetry (config (svc w)) (mem w) segments segment)))
              = int (length (AliasPieces (mem w segment)))))"
proof (intro conjI ballI impI)
  let ?h1 = "Verify_setRetry (config (svc w)) (mem w) segments"
  have fp: "\<exists>rest. calls (fst (Verify_firstPass cb env w segments))
              = calls w @ CreateBatchesCall ?h1 segments # rest"
    by (simp add: Verify_firstPass_calls Let_def)
  show "\<exists>rest. calls (fst (Verify cb env w segments)) = calls w @ CreateBatchesCall ?h1 segments # rest"
  proof (cases "snd (Verify_firstPass cb env w segments) = None")
    case False
    then have "calls (fst (Verify cb env w segments)) = calls (fst (Verify_firstPass cb env w segments))"
      by (rule Verify_calls_err)
    then show ?thesis using fp by simp
  next
    case True
    obtain rest where r: "calls (fst (Verify_firstPass cb env w segments))
              = calls w @ CreateBatchesCall ?h1 segments # rest" using fp by blast
    have "\<exists>more. calls (fst (Verify_retry cb env (fst (Verify_firstPass cb env w segments)) segments))
            = calls (fst (Verify_firstPass cb env w segments)) @ more"
      by (simp add: Verify_retry_calls Let_def)
    then obtain more where "calls (fst (Verify_retry cb env (fst (Verify_firstPass cb env w segments)) segments))
            = calls (fst (Verify_firstPass cb env w segments)) @ more" by blast
    moreover have "calls (fst (Verify cb env w segments))
       = calls (fst (Verify_retry cb env (fst (Verify_firstPass cb env w segments)) segments))"
      using True by (rule Verify_calls_ok)
    ultimately show ?thesis using r by simp
  qed
next
  fix segment assume s: "segment \<in> set segments"
  show r: "Retry (Status (Verify_setRetry (config (svc w)) (mem w) segments segment))
          = (if Check (config (svc w)) = 0 then of_nat (length (AliasPieces (mem w segment)))
             else ucast (Check (config (svc w))))"
    using s by (simp add: Verify_setRetry_Retry ucast_of_nat_32)
  {
    assume "Check (config (svc w)) \<noteq> 0 \<and> - (2 ^ 31) \<le> sint (Check (config (svc w)))
             \<and> sint (Check (config (svc w))) < 2 ^ 31"
    then show "sint (Retry (Status (Verify_setRetry (config (svc w)) (mem w) segments segment)))
              = sint (Check (config (svc w)))"
      using r by (simp add: sint_ucast_64_32)
  }
  {
    assume "Check (config (svc w)) = 0 \<and> length (AliasPieces (mem w segment)) < 2 ^ 31"
    then show "sint (Retry (Status (Verify_setRetry (config (svc w)) (mem w) segments segment)))
              = int (length (AliasPieces (mem w segment)))"
      using r by (simp add: sint_of_nat_32)
  }
qed


text \<open>
  C3.  The calls \<open>Verify\<close> adds to the record contain at most two calls of
  \<open>VerifyBatches\<close>: the first on the batches \<open>CreateBatches\<close> returned for all the segments,
  the second, if any, on the batches it returned for the segments that still had
  \<open>Status.Retry > 0\<close> after the first pass.
\<close>

theorem Verify_at_most_two_passes:
  "\<exists>new. calls (fst (Verify cb env w segments)) = calls w @ new
     \<and> length (filter is_VerifyBatchesCall new) \<le> 2
     \<and> (let h1 = Verify_setRetry (config (svc w)) (mem w) segments in
        case snd (cb (svc w) h1 segments) of
          Inl err \<Rightarrow> new = [CreateBatchesCall h1 segments]
        | Inr batches \<Rightarrow>
            (let w3 = fst (Verify_firstPass cb env w segments);
                 retrySegments = filter (\<lambda>segment. 0 <s Retry (Status (mem w3 segment))) segments;
                 h = Verify_prepareRetry (svc w3) (mem w3) retrySegments
             in new = [CreateBatchesCall h1 segments, VerifyBatchesCall batches]
                \<or> new = [CreateBatchesCall h1 segments, VerifyBatchesCall batches,
                          CreateBatchesCall h retrySegments]
                  \<and> isl (snd (cb (svc w3) h retrySegments))
                \<or> (\<exists>retryBatches. snd (cb (svc w3) h retrySegments) = Inr retryBatches
                      \<and> new = [CreateBatchesCall h1 segments, VerifyBatchesCall batches,
                                CreateBatchesCall h retrySegments, VerifyBatchesCall retryBatches])))"
proof -
  let ?h1 = "Verify_setRetry (config (svc w)) (mem w) segments"
  let ?w3 = "fst (Verify_firstPass cb env w segments)"
  let ?rs = "filter (\<lambda>segment. 0 <s Retry (Status (mem ?w3 segment))) segments"
  let ?h = "Verify_prepareRetry (svc ?w3) (mem ?w3) ?rs"
  have fp: "calls ?w3 = calls w @ CreateBatchesCall ?h1 segments #
        (case snd (cb (svc w) ?h1 segments) of Inl err \<Rightarrow> [] | Inr batches \<Rightarrow> [VerifyBatchesCall batches])"
    by (simp add: Verify_firstPass_calls Let_def)
  show ?thesis
  proof (cases "snd (cb (svc w) ?h1 segments)")
    case (Inl err)
    then have "snd (Verify_firstPass cb env w segments) \<noteq> None"
      using Verify_firstPass_error [of cb env w segments] by auto
    then have "calls (fst (Verify cb env w segments)) = calls w @ [CreateBatchesCall ?h1 segments]"
      using fp Inl by (simp add: Verify_calls_err)
    then show ?thesis using Inl by (simp add: Let_def)
  next
    case (Inr batches)
    have fp': "calls ?w3 = calls w @ [CreateBatchesCall ?h1 segments, VerifyBatchesCall batches]"
      using fp Inr by simp
    show ?thesis
    proof (cases "snd (Verify_firstPass cb env w segments) = None")
      case False
      then have "calls (fst (Verify cb env w segments))
          = calls w @ [CreateBatchesCall ?h1 segments, VerifyBatchesCall batches]"
        using fp' by (simp add: Verify_calls_err)
      then show ?thesis using Inr by (simp add: Let_def)
    next
      case True
      have r: "calls (fst (Verify cb env w segments))
        = calls ?w3 @
           (if ?rs \<noteq> [] \<and> 0 <s Check (config (svc ?w3))
            then CreateBatchesCall ?h ?rs #
                   (case snd (cb (svc ?w3) ?h ?rs) of
                      Inl err \<Rightarrow> []
                    | Inr retryBatches \<Rightarrow> [VerifyBatchesCall retryBatches])
            else [])"
        by (simp add: Verify_calls_ok [OF True] Verify_retry_calls Let_def)
      show ?thesis
      proof (cases "?rs \<noteq> [] \<and> 0 <s Check (config (svc ?w3))")
        case False
        then have "calls (fst (Verify cb env w segments))
          = calls w @ [CreateBatchesCall ?h1 segments, VerifyBatchesCall batches]"
          using r fp' by auto
        then show ?thesis using Inr by (simp add: Let_def)
      next
        case go: True
        show ?thesis
        proof (cases "snd (cb (svc ?w3) ?h ?rs)")
          case (Inl err)
          then have "calls (fst (Verify cb env w segments))
            = calls w @ [CreateBatchesCall ?h1 segments, VerifyBatchesCall batches,
                         CreateBatchesCall ?h ?rs]"
            using r fp' go by simp
          then show ?thesis using Inr Inl by (simp add: Let_def)
        next
          case (Inr retryBatches)
          then have "calls (fst (Verify cb env w segments))
            = calls w @ [CreateBatchesCall ?h1 segments, VerifyBatchesCall batches,
                         CreateBatchesCall ?h ?rs, VerifyBatchesCall retryBatches]"
            using r fp' go by simp
          then show ?thesis using \<open>snd (cb (svc w) ?h1 segments) = Inr batches\<close> Inr
            by (simp add: Let_def)
        qed
      qed
    qed
  qed
qed

text \<open>
  The claim without the bound fails: with a check count of \<open>2 ^ 31\<close> the segment gets
  \<open>Status.Retry = - 2 ^ 31\<close>.
\<close>

theorem Verify_retry_budget_counterexample:
  "Check (config (svc (retry_world 2147483648))) \<noteq> 0
   \<and> sint (Check (config (svc (retry_world 2147483648)))) = 2147483648
   \<and> sint (Retry (Status (Verify_setRetry (config (svc (retry_world 2147483648)))
        (mem (retry_world 2147483648)) [0] 0))) = - 2147483648"
  by (simp add: retry_world_def Let_def)

text \<open>
  The theorem at work: a check count of 2 gives every segment the budget 2; a check
  count of 0 gives a segment with three pieces the budget 3.
\<close>

theorem Verify_retry_budget_witness:
  "sint (Retry (Status (Verify_setRetry (config (svc (retry_world 2))) (mem (retry_world 2)) [0, 1] 1))) = 2
   \<and> sint (Retry (Status (Verify_setRetry (config (svc (retry_world 0))) (mem (retry_world 0)) [0, 1] 1))) = 3"
  using Verify_retry_budget [of CreateBatches_spec failing_env "retry_world 2" "[0, 1]"]
        Verify_retry_budget [of CreateBatches_spec failing_env "retry_world 0" "[0, 1]"]
  by (simp add: retry_world_def retry_segment_def)



subsection \<open>Iterate\<close>

lemma sint_of_nat_64: "m < 2 ^ 63 \<Longrightarrow> sint (of_nat m :: 64 word) = int m"
proof -
  assume "m < 2 ^ 63"
  then have "int m < 2 ^ 63" by (metis of_nat_less_iff of_nat_numeral of_nat_power)
  then have "signed_take_bit 63 (int m) = int m"
    by (intro signed_take_bit_int_eq_self) auto
  then show ?thesis by (simp add: signed_of_nat)
qed

lemma full_batch_test:
  fixes b :: go_int
  assumes "1 \<le>s b" "m \<le> nat (sint b)"
  shows "b \<le>s of_nat m \<longleftrightarrow> nat (sint b) \<le> m"
proof -
  have "sint b < 2 ^ 63" using sint_lt [of b] by simp
  moreover have "1 \<le> sint b" using assms(1) by (simp add: word_sle_eq)
  ultimately have "int m < 2 ^ 63" using assms(2) by linarith
  then have "m < 2 ^ 63" by (metis of_nat_less_iff of_nat_numeral of_nat_power)
  then have "sint (of_nat m :: 64 word) = int m" by (rule sint_of_nat_64)
  then show ?thesis using \<open>1 \<le> sint b\<close> by (simp add: word_sle_eq) linarith
qed

lemma batches_of_Nil [simp]: "batches_of n [] = []"
  by (subst batches_of.simps) simp

lemma batches_of_short: "0 < n \<Longrightarrow> rows \<noteq> [] \<Longrightarrow> length rows \<le> n \<Longrightarrow> batches_of n rows = [rows]"
  by (subst batches_of.simps) simp

lemma batches_of_full:
  "0 < n \<Longrightarrow> length segments = n \<Longrightarrow> batches_of n (segments @ rows) = segments # batches_of n rows"
  by (subst batches_of.simps) auto

lemma Iterate_loop_batches_of:
  assumes b: "1 \<le>s b" and c: "\<forall>k. ctx_Err k = None" and f: "\<forall>log batch. fn log batch = None"
  shows "length segments < nat (sint b) \<Longrightarrow>
         Iterate_loop b ctx_Err fn k rows segments delivered
           = (delivered @ batches_of (nat (sint b)) (segments @ rows), None)"
proof (induction rows arbitrary: k segments delivered)
  case Nil
  have n: "0 < nat (sint b)" using Nil by linarith
  show ?case
  proof (cases "segments = []")
    case True
    then show ?thesis by simp
  next
    case False
    then show ?thesis using Nil n f by (simp add: batches_of_short)
  qed
next
  case (Cons segment rows)
  let ?n = "nat (sint b)"
  let ?s1 = "segments @ [segment]"
  have n: "0 < ?n" using Cons.prems by linarith
  have le: "length ?s1 \<le> ?n" using Cons.prems by simp
  have test: "b \<le>s of_nat (length ?s1) \<longleftrightarrow> ?n \<le> length ?s1"
    using b le by (rule full_batch_test)
  show ?case
  proof (cases "?n \<le> length ?s1")
    case True
    then have len: "length ?s1 = ?n" using le by simp
    have "Iterate_loop b ctx_Err fn k (segment # rows) segments delivered
        = Iterate_loop b ctx_Err fn (Suc k) rows [] (delivered @ [?s1])"
      using True test c f by (simp add: Let_def)
    also have "\<dots> = ((delivered @ [?s1]) @ batches_of ?n ([] @ rows), None)"
      using n by (intro Cons.IH) simp
    finally have "Iterate_loop b ctx_Err fn k (segment # rows) segments delivered
        = (delivered @ ?s1 # batches_of ?n rows, None)" by simp
    moreover have "batches_of ?n (segments @ segment # rows) = ?s1 # batches_of ?n rows"
      using batches_of_full [OF n len, of rows] by simp
    ultimately show ?thesis by simp
  next
    case False
    then have lt: "length ?s1 < ?n" by simp
    have "Iterate_loop b ctx_Err fn k (segment # rows) segments delivered
        = Iterate_loop b ctx_Err fn (Suc k) rows ?s1 delivered"
      using False test c by (simp add: Let_def)
    also have "\<dots> = (delivered @ batches_of ?n (?s1 @ rows), None)"
      using lt by (intro Cons.IH)
    finally show ?thesis by simp
  qed
qed

lemma concat_batches_of: "0 < n \<Longrightarrow> concat (batches_of n rows) = rows"
proof (induction n rows rule: batches_of.induct)
  case (1 n rows)
  show ?case
  proof (cases "rows = []")
    case True
    then show ?thesis by simp
  next
    case False
    then have "batches_of n rows = take n rows # batches_of n (drop n rows)"
      using "1.prems" by (subst batches_of.simps) simp
    then show ?thesis using "1.IH" "1.prems" False by simp
  qed
qed

lemma length_batches_of:
  "0 < n \<Longrightarrow> length (batches_of n rows) = (length rows + n - 1) div n"
proof (induction n rows rule: batches_of.induct)
  case (1 n rows)
  show ?case
  proof (cases "rows = []")
    case True
    then show ?thesis using "1.prems" by simp
  next
    case False
    have unf: "batches_of n rows = take n rows # batches_of n (drop n rows)"
      using "1.prems" False by (subst batches_of.simps) simp
    have ih: "length (batches_of n (drop n rows)) = (length (drop n rows) + n - 1) div n"
      using "1.IH" "1.prems" False by simp
    show ?thesis
    proof (cases "length rows \<le> n")
      case True
      then have "(length rows + n - 1) div n = 1"
        using False "1.prems" by (cases rows) (auto simp: div_nat_eqI)
      then show ?thesis using unf ih True by simp
    next
      case False
      then have "length rows + n - 1 = (length rows - n + n - 1) + n" by simp
      then have "(length rows + n - 1) div n = (length rows - n + n - 1) div n + 1"
        using "1.prems" by (metis div_add_self2 not_less0)
      then show ?thesis using unf ih by simp
    qed
  qed
qed

lemma nth_batches_of:
  "0 < n \<Longrightarrow> i < length (batches_of n rows) \<Longrightarrow>
   batches_of n rows ! i = take n (drop (i * n) rows)"
proof (induction n rows arbitrary: i rule: batches_of.induct)
  case (1 n rows)
  have ne: "rows \<noteq> []" using "1.prems" by auto
  have unf: "batches_of n rows = take n rows # batches_of n (drop n rows)"
    using "1.prems" ne by (subst batches_of.simps) simp
  show ?case
  proof (cases i)
    case 0
    then show ?thesis using unf by simp
  next
    case (Suc j)
    then have "j < length (batches_of n (drop n rows))" using "1.prems" unf by simp
    then have "batches_of n (drop n rows) ! j = take n (drop (j * n) (drop n rows))"
      using "1.IH" "1.prems" ne by simp
    then show ?thesis using unf Suc by (simp add: add.commute)
  qed
qed

lemma ceil_div_rest:
  fixes m n :: nat
  assumes "0 < n" "m mod n \<noteq> 0"
  shows "(m + n - 1) div n = m div n + 1"
proof -
  define r where "r = m mod n + n - 1"
  have lt: "m mod n < n" using assms(1) by simp
  have rn: "n \<le> r" "r < n + n" using assms lt unfolding r_def by linarith+
  then have one: "r div n = 1" by (intro div_nat_eqI) simp_all
  have e: "m div n * n + m mod n = m" by simp
  have "m + n - 1 = m div n * n + r" using e assms unfolding r_def by linarith
  then have "(m + n - 1) div n = (m div n * n + r) div n" by simp
  also have "\<dots> = m div n + r div n" using assms(1) by (intro div_mult_self3) simp
  finally show ?thesis using one by simp
qed

text \<open>
  C7.  With a batch size of at least 1, a context that is never cancelled and a callback
  that never fails, \<open>Iterate\<close> returns nil and has handed over exactly the batches the spec
  describes: their concatenation is the row sequence, batch \<open>i\<close> holds the rows from
  \<open>i * n\<close> on, each of the first \<open>length rows div n\<close> batches has \<open>n\<close> rows, and when rows
  remain there is one more batch with the \<open>length rows mod n\<close> rows left.
\<close>

theorem Iterate_delivers_batches:
  assumes "1 \<le>s batchSize provider" "\<forall>k. ctx_Err k = None" "\<forall>log batch. fn log batch = None"
  shows "let rows = db (Iterate_options provider); n = nat (sint (batchSize provider)) in
         \<exists>delivered. Iterate db provider ctx_Err fn = Some (delivered, None)
           \<and> delivered = batches_of n rows
           \<and> concat delivered = rows
           \<and> length delivered = (length rows + n - 1) div n
           \<and> (\<forall>i < length delivered. delivered ! i = take n (drop (i * n) rows))
           \<and> (\<forall>i < length rows div n. length (delivered ! i) = n)
           \<and> (length rows mod n \<noteq> 0 \<longrightarrow>
                length (last delivered) = length rows mod n \<and> length (last delivered) < n)"
proof -
  let ?rows = "db (Iterate_options provider)"
  let ?n = "nat (sint (batchSize provider))"
  let ?d = "batches_of ?n ?rows"
  have one: "1 \<le> sint (batchSize provider)" using assms(1) by (simp add: word_sle_eq)
  then have n: "0 < ?n" by simp
  have nneg: "\<not> batchSize provider <s 0" using one by (simp add: word_sless_alt)
  have run: "Iterate db provider ctx_Err fn = Some (?d, None)"
    using nneg Iterate_loop_batches_of [OF assms, of "[]" 0 ?rows "[]"] n
    by (simp add: Iterate_def DB_IterateLoopSegments_def Let_def)
  have len: "length ?d = (length ?rows + ?n - 1) div ?n" using n by (rule length_batches_of)
  have nth: "\<forall>i < length ?d. ?d ! i = take ?n (drop (i * ?n) ?rows)"
    using n by (simp add: nth_batches_of)
  have dle: "length ?rows div ?n \<le> length ?d"
    unfolding len using n by (intro div_le_mono) simp
  have full: "\<forall>i < length ?rows div ?n. length (?d ! i) = ?n"
  proof (intro allI impI)
    fix i assume i: "i < length ?rows div ?n"
    then have "Suc i \<le> length ?rows div ?n" by simp
    then have "Suc i * ?n \<le> length ?rows div ?n * ?n" by (rule mult_le_mono1)
    also have "\<dots> \<le> length ?rows" by simp
    finally have "i * ?n + ?n \<le> length ?rows" by simp
    moreover have "?d ! i = take ?n (drop (i * ?n) ?rows)" using nth i dle by simp
    ultimately show "length (?d ! i) = ?n" by simp
  qed
  have rest: "length (last ?d) = length ?rows mod ?n \<and> length (last ?d) < ?n"
    if m: "length ?rows mod ?n \<noteq> 0"
  proof -
    let ?q = "length ?rows div ?n"
    have "(length ?rows + ?n - 1) div ?n = ?q + 1"
      using n m by (rule ceil_div_rest)
    then have l: "length ?d = Suc ?q" using len by simp
    then have "last ?d = ?d ! ?q" by (metis diff_Suc_1 last_conv_nth length_0_conv nat.distinct(1))
    also have "\<dots> = take ?n (drop (?q * ?n) ?rows)" using nth l by simp
    finally have "length (last ?d) = min (length ?rows - ?q * ?n) ?n" by simp
    moreover have "length ?rows - ?q * ?n = length ?rows mod ?n"
      by (simp add: modulo_nat_def mult.commute)
    moreover have "length ?rows mod ?n < ?n" using n by simp
    ultimately show ?thesis by simp
  qed
  show ?thesis
    unfolding Let_def using run concat_batches_of [OF n, of ?rows] len nth full rest by blast
qed

text \<open>The theorem at work: five rows in batches of two.\<close>

theorem Iterate_delivers_batches_witness:
  "1 \<le>s batchSize (example_provider 2)
   \<and> Iterate example_rows (example_provider 2) (\<lambda>k. None) (\<lambda>log batch. None)
       = Some ([[10, 11], [12, 13], [14]], None)"
  using Iterate_delivers_batches [of "example_provider 2" "\<lambda>k. None" "\<lambda>log batch. None" example_rows]
  by (simp add: Iterate_def DB_IterateLoopSegments_def Iterate_options_def example_provider_def example_rows_def Let_def
      word_sle_eq word_sless_alt)







subsection \<open>CreateRanges\<close>

lemma ucast_64_32_eq_0:
  fixes n :: "64 word"
  assumes "0 \<le>s n" "n <s 4294967296"
  shows "(ucast n :: 32 word) = 0 \<longleftrightarrow> n = 0"
proof
  assume z: "(ucast n :: 32 word) = 0"
  have s: "0 \<le> sint n" "sint n < 2 ^ 32"
    using assms by (simp_all add: word_sle_eq word_sless_alt)
  have "uint n = take_bit 64 (sint n)" by (simp add: uint_sint)
  also have "\<dots> = sint n" using s by (intro take_bit_int_eq_self) auto
  finally have u: "uint n = sint n" .
  have "uint (ucast n :: 32 word) = take_bit 32 (uint n)" by (simp add: unsigned_ucast_eq)
  also have "\<dots> = uint n" using s u by (intro take_bit_int_eq_self) auto
  finally have "uint n = 0" using z by simp
  then show "n = 0" by (simp add: uint_0_iff)
next
  assume "n = 0"
  then show "(ucast n :: 32 word) = 0" by simp
qed

text \<open>
  C9, as the source has it.  For every function in the place of \<open>CreateUUIDRanges\<close>
  that fails exactly on 0: \<open>CreateRanges\<close> fails exactly when the low 32 bits of
  \<open>nRanges\<close> are 0, which for \<open>0 \<le> nRanges < 2 ^ 32\<close> is \<open>nRanges = 0\<close>; and when it
  succeeds it returns one provider for each range, in order, all with the same timestamp
  and the batch size given.
\<close>

theorem CreateRanges_error_iff:
  assumes "\<forall>n. isl (createUUIDRanges n) \<longleftrightarrow> n = 0"
  shows "(isl (CreateRanges createUUIDRanges now nRanges bsize) \<longleftrightarrow> (ucast nRanges :: 32 word) = 0)
     \<and> (0 \<le>s nRanges \<and> nRanges <s 4294967296 \<longrightarrow>
          (isl (CreateRanges createUUIDRanges now nRanges bsize) \<longleftrightarrow> nRanges = 0))
     \<and> (\<forall>providers. CreateRanges createUUIDRanges now nRanges bsize = Inr providers \<longrightarrow>
          createUUIDRanges (ucast nRanges) = Inr (map uuidRange providers)
          \<and> (\<forall>provider \<in> set providers. asOfSystemTime provider = now \<and> batchSize provider = bsize))"
proof -
  have a: "isl (createUUIDRanges (ucast nRanges)) \<longleftrightarrow> (ucast nRanges :: 32 word) = 0"
    using assms by blast
  have 1: "isl (CreateRanges createUUIDRanges now nRanges bsize) \<longleftrightarrow> (ucast nRanges :: 32 word) = 0"
  proof (cases "createUUIDRanges (ucast nRanges)")
    case (Inl err)
    then show ?thesis using a by (simp add: CreateRanges_def)
  next
    case (Inr uuidRanges)
    then show ?thesis using a by (simp add: CreateRanges_def)
  qed
  have 2: "0 \<le>s nRanges \<and> nRanges <s 4294967296 \<longrightarrow>
          (isl (CreateRanges createUUIDRanges now nRanges bsize) \<longleftrightarrow> nRanges = 0)"
    unfolding 1 by (simp add: ucast_64_32_eq_0)
  have 3: "\<forall>providers. CreateRanges createUUIDRanges now nRanges bsize = Inr providers \<longrightarrow>
          createUUIDRanges (ucast nRanges) = Inr (map uuidRange providers)
          \<and> (\<forall>provider \<in> set providers. asOfSystemTime provider = now \<and> batchSize provider = bsize)"
  proof (cases "createUUIDRanges (ucast nRanges)")
    case (Inl err)
    then show ?thesis by (simp add: CreateRanges_def)
  next
    case (Inr uuidRanges)
    then show ?thesis by (auto simp: CreateRanges_def comp_def)
  qed
  show ?thesis using 1 2 3 by blast
qed

lemma ucast_minus_1_64_32: "(ucast (- 1 :: 64 word) :: 32 word) \<noteq> 0"
proof
  assume "(ucast (- 1 :: 64 word) :: 32 word) = 0"
  then have "uint (ucast (- 1 :: 64 word) :: 32 word) = 0" by simp
  moreover have "uint (ucast (- 1 :: 64 word) :: 32 word) = take_bit 32 (uint (- 1 :: 64 word))"
    by (simp only: unsigned_ucast_eq) simp
  moreover have "uint (- 1 :: 64 word) = mask 64" by (simp add: unsigned_minus_1_eq_mask)
  ultimately show False by (simp add: take_bit_eq_mask mask_eq_exp_minus_1)
qed

text \<open>
  The claim as stated fails for a negative number of ranges: \<open>uint32(-1)\<close> is
  \<open>4294967295\<close>, and \<open>CreateRanges\<close> returns no error.
\<close>

theorem CreateRanges_error_iff_counterexample:
  "(- 1 :: go_int) \<le>s 0 \<and> \<not> isl (CreateRanges CreateUUIDRanges 1667000000 (- 1) 2500)"
  by (simp add: CreateRanges_def CreateUUIDRanges_def word_sle_eq ucast_minus_1_64_32)

text \<open>
  The theorem at work: no ranges is an error; two ranges give two providers with the
  same timestamp, the first open below and the second open above.
\<close>

theorem CreateRanges_error_iff_witness:
  "isl (CreateRanges CreateUUIDRanges 1667000000 0 2500)
   \<and> map asOfSystemTime (projr (CreateRanges CreateUUIDRanges 1667000000 2 2500))
       = [1667000000, 1667000000]
   \<and> map uuidRange (projr (CreateRanges CreateUUIDRanges 1667000000 2 2500))
       = [\<lparr>Start = None, End = Some (2 ^ 127)\<rparr>, \<lparr>Start = Some (2 ^ 127), End = None\<rparr>]"
proof -
  have h: "\<forall>n. isl (CreateUUIDRanges n) \<longleftrightarrow> n = 0" by (simp add: CreateUUIDRanges_def)
  have l: "[0..<2::nat] = [0, 1]" by code_simp
  have b: "UUIDRange_bounds 2
       = [\<lparr>Start = None, End = Some (2 ^ 127)\<rparr>, \<lparr>Start = Some (2 ^ 127), End = None\<rparr>]"
    by (simp add: UUIDRange_bounds_def UUIDRange_bound_def l)
  have 1: "isl (CreateRanges CreateUUIDRanges 1667000000 0 2500)"
    by (simp add: CreateRanges_def CreateUUIDRanges_def)
  have 2: "CreateRanges CreateUUIDRanges 1667000000 2 2500
      = Inr [\<lparr>uuidRange = \<lparr>Start = None, End = Some (2 ^ 127)\<rparr>,
              asOfSystemTime = 1667000000, batchSize = 2500\<rparr>,
             \<lparr>uuidRange = \<lparr>Start = Some (2 ^ 127), End = None\<rparr>,
              asOfSystemTime = 1667000000, batchSize = 2500\<rparr>]"
    by (simp add: CreateRanges_def CreateUUIDRanges_def b)
  have 3: "map asOfSystemTime (projr (CreateRanges CreateUUIDRanges 1667000000 2 2500))
       = [1667000000, 1667000000]"
    "map uuidRange (projr (CreateRanges CreateUUIDRanges 1667000000 2 2500))
       = [\<lparr>Start = None, End = Some (2 ^ 127)\<rparr>, \<lparr>Start = Some (2 ^ 127), End = None\<rparr>]"
    by (simp_all only: 2 sum.sel list.map MetabaseSegmentProvider.simps)
  show ?thesis
    using 1 3 CreateRanges_error_iff [OF h, of 1667000000 0 2500] CreateRanges_error_iff [OF h, of 1667000000 2 2500]
    by blast
qed

end
